theory Spec2Isabelle
  imports Complex_Main "HOL-Library.AList" "HOL-Library.Multiset"
begin

section \<open>JavaScript values\<close>

text \<open>
  \<^verbatim>\<open>GetCoordinatesFromClick(e: MouseEvent | any)\<close> accepts any JavaScript value, and the
  component properties, option fields and event payloads the service forwards are never
  inspected, so all of them are values of one universal type. Numbers are reals plus
  \<open>NaN\<close> (only the tests "is zero" and "is NaN" matter to the code). A function value
  is represented by the outcome of calling it with no argument: \<open>Some r\<close> when the call
  returns \<open>r\<close>, \<open>None\<close> when the call raises.
\<close>

datatype jsval =
    JUndefined
  | JNull
  | JBool bool
  | JNumber real
  | JNaN
  | JString string
  | JArray "jsval list"
  | JObject "(string \<times> jsval) list"
  | JFunction "jsval option"

datatype error = TypeError | Thrown

text \<open>JavaScript's \<open>ToBoolean\<close>: what \<^verbatim>\<open>!x\<close> negates.\<close>

fun truthy :: "jsval \<Rightarrow> bool" where
  "truthy JUndefined = False"
| "truthy JNull = False"
| "truthy (JBool b) = b"
| "truthy (JNumber r) = (r \<noteq> 0)"
| "truthy JNaN = False"
| "truthy (JString s) = (s \<noteq> [])"
| "truthy (JArray xs) = True"
| "truthy (JObject ps) = True"
| "truthy (JFunction f) = True"

text \<open>
  Property read \<^verbatim>\<open>x.name\<close>, for the names the code reads (\<open>latLng\<close>, \<open>lat\<close>, \<open>lng\<close>):
  a \<open>TypeError\<close> on \<open>undefined\<close> and \<open>null\<close>, the stored value on an object that has the
  property, \<open>undefined\<close> everywhere else.
\<close>

fun get_prop :: "jsval \<Rightarrow> string \<Rightarrow> error + jsval" where
  "get_prop JUndefined name = Inl TypeError"
| "get_prop JNull name = Inl TypeError"
| "get_prop (JObject ps) name = Inr (case map_of ps name of None \<Rightarrow> JUndefined | Some v \<Rightarrow> v)"
| "get_prop x name = Inr JUndefined"

text \<open>The call \<^verbatim>\<open>f()\<close>: a \<open>TypeError\<close> when \<open>f\<close> is not a function.\<close>

fun call_function :: "jsval \<Rightarrow> error + jsval" where
  "call_function (JFunction (Some r)) = Inr r"
| "call_function (JFunction None) = Inl Thrown"
| "call_function x = Inl TypeError"

section \<open>GetCoordinatesFromClick\<close>

text \<open>
  Lines 123 to 134 of \<^verbatim>\<open>google-polyline.service.ts\<close>. The test
  \<^verbatim>\<open>!e.latLng.lat || !e.latLng.lng\<close> reads \<open>lng\<close> only when \<open>lat\<close> is truthy. Property reads
  are plain reads: an object with accessor properties, whose reads could raise or differ
  from one read to the next, is not among the values.
\<close>

definition GetCoordinatesFromClick :: "jsval \<Rightarrow> error + jsval" where
  "GetCoordinatesFromClick e =
    (if \<not> truthy e then Inr JNull
     else (case get_prop e ''latLng'' of
       Inl x \<Rightarrow> Inl x
     | Inr latLng \<Rightarrow>
        (if \<not> truthy latLng then Inr JNull
         else (case get_prop latLng ''lat'' of
           Inl x \<Rightarrow> Inl x
         | Inr lat \<Rightarrow>
            (if \<not> truthy lat then Inr JNull
             else (case get_prop latLng ''lng'' of
               Inl x \<Rightarrow> Inl x
             | Inr lng \<Rightarrow>
                (if \<not> truthy lng then Inr JNull
                 else (case call_function lat of
                   Inl x \<Rightarrow> Inl x
                 | Inr a \<Rightarrow>
                    (case call_function lng of
                       Inl x \<Rightarrow> Inl x
                     | Inr b \<Rightarrow>
                        Inr (JObject [(''latitude'', a), (''longitude'', b)]))))))))))"

text \<open>
  The words of the claim about \<open>GetCoordinatesFromClick\<close>: \<open>field_of x name\<close> is the value
  the expression \<^verbatim>\<open>x.name\<close> denotes (nothing, read as \<open>undefined\<close>, below \<open>undefined\<close> and
  \<open>null\<close>), and \<open>some_part_falsy e\<close> says that \<open>e\<close>, \<open>e.latLng\<close>, \<open>e.latLng.lat\<close> or
  \<open>e.latLng.lng\<close> is falsy.
\<close>

definition field_of :: "jsval \<Rightarrow> string \<Rightarrow> jsval" where
  "field_of x name = (case get_prop x name of Inl err \<Rightarrow> JUndefined | Inr v \<Rightarrow> v)"

definition some_part_falsy :: "jsval \<Rightarrow> bool" where
  "some_part_falsy e =
    (\<not> truthy e \<or> \<not> truthy (field_of e ''latLng'')
     \<or> \<not> truthy (field_of (field_of e ''latLng'') ''lat'')
     \<or> \<not> truthy (field_of (field_of e ''latLng'') ''lng''))"

section \<open>The objects the service works with\<close>

text \<open>
  Component instances, promises, native polylines (the \<open>Polyline\<close> model objects a
  promise of \<open>MapService.CreatePolyline\<close> is fulfilled with) and observers are objects
  with an identity; each is named by a reference.
\<close>

type_synonym component_ref = nat
type_synonym promise_ref = nat
type_synonym polyline_ref = nat
type_synonym observer_ref = nat

text \<open>
  The properties of a \<open>MapPolylineComponent\<close> that the service reads (\<open>Id\<close> is written
  \<open>Id'\<close>), and the \<open>IPolylineOptions\<close> object literal of \<open>AddPolyline\<close> (\<open>id\<close> and \<open>zIndex\<close>
  are written \<open>id'\<close> and \<open>zIndex'\<close>).
\<close>

record MapPolylineComponent =
  Id' :: jsval
  Clickable :: jsval
  Draggable :: jsval
  Editable :: jsval
  Geodesic :: jsval
  Path :: jsval
  StrokeColor :: jsval
  StrokeOpacity :: jsval
  StrokeWeight :: jsval
  Visible :: jsval
  zIndex :: jsval

record IPolylineOptions =
  id' :: jsval
  clickable :: jsval
  draggable :: jsval
  editable :: jsval
  geodesic :: jsval
  path :: jsval
  strokeColor :: jsval
  strokeOpacity :: jsval
  strokeWeight :: jsval
  visible :: jsval
  zIndex' :: jsval

text \<open>
  The closures of the source, each represented by the variables it captures:
  the listener \<^verbatim>\<open>(e: T) => this._zone.run(() => observer.next(e))\<close> of
  \<open>CreateEventObservable\<close>, and the four callbacks handed to \<^verbatim>\<open>then\<close>.
\<close>

datatype listener = ZoneListener observer_ref

datatype callback =
    AddListenerCb string observer_ref
  | DeleteCb component_ref
  | SetOptionsCb IPolylineOptions
  | SetPathCb component_ref

text \<open>
  Calls that leave the service: to the injected \<open>MapService\<close>, to a native polyline and
  to an observer. The state keeps them in the order they were made, each with the flag
  "made inside the zone".
\<close>

datatype call =
    MapService_CreatePolyline IPolylineOptions promise_ref
  | Polyline_AddListener polyline_ref string listener
  | Polyline_Delete polyline_ref
  | Polyline_SetOptions polyline_ref IPolylineOptions
  | Polyline_SetPath polyline_ref jsval
  | Observer_next observer_ref jsval

text \<open>
  A promise is pending, fulfilled (with a native polyline, or with \<open>undefined\<close> for a
  \<open>Promise<void>\<close>) or rejected. A job is an entry of the microtask queue: a callback to
  run on a value, with the promise that \<^verbatim>\<open>then\<close> returned for it, or the rejection of such
  a promise because the promise it derives from was rejected.
\<close>

datatype settlement = Fulfilled "polyline_ref option" | Rejected

datatype job =
    Reaction callback "polyline_ref option" promise_ref
  | Rejection promise_ref

text \<open>
  \<open>polylines\<close> is the field \<open>_polylines\<close>, the only field the class declares besides its
  three injected collaborators; a JavaScript \<open>Map\<close> is a list of entries in insertion
  order. Everything else is the world around the service: the component objects, the
  promises (\<open>settled p = None\<close> when \<open>p\<close> is pending), the callbacks waiting on pending
  promises, the microtask queue, whether the running code is inside the zone, and the
  calls made so far. The promises are those of zone.js, which \<open>NgZone\<close> rests on (the
  constructor's comment: "to support zone aware promises"): \<open>then_zone d\<close> is whether the
  call of \<^verbatim>\<open>then\<close> that returned \<open>d\<close> was made inside the zone.
\<close>

record state =
  polylines :: "(component_ref \<times> promise_ref) list"
  components :: "component_ref \<Rightarrow> MapPolylineComponent"
  settled :: "promise_ref \<Rightarrow> settlement option"
  reactions :: "(promise_ref \<times> callback \<times> promise_ref) list"
  jobs :: "job list"
  next_promise :: promise_ref
  in_zone :: bool
  calls :: "(bool \<times> call) list"
  then_zone :: "promise_ref \<Rightarrow> bool"

section \<open>The library operations the service calls\<close>

text \<open>\<open>Map.prototype.get\<close>, \<open>set\<close> and \<open>delete\<close>; \<open>None\<close> is \<open>undefined\<close>.\<close>

definition Map_get :: "('k \<times> 'v) list \<Rightarrow> 'k \<Rightarrow> 'v option" where
  "Map_get m k = map_of m k"

definition Map_set :: "('k \<times> 'v) list \<Rightarrow> 'k \<Rightarrow> 'v \<Rightarrow> ('k \<times> 'v) list" where
  "Map_set m k v = AList.update k v m"

definition Map_delete :: "('k \<times> 'v) list \<Rightarrow> 'k \<Rightarrow> ('k \<times> 'v) list" where
  "Map_delete m k = AList.delete k m"

text \<open>A call that leaves the service is recorded with the zone flag of the moment.\<close>

definition perform :: "call \<Rightarrow> state \<Rightarrow> state" where
  "perform c s = s\<lparr>calls := calls s @ [(in_zone s, c)]\<rparr>"

text \<open>\<open>NgZone.run(fn)\<close>: run \<open>fn\<close> inside the zone, then restore the caller's context,
  also when \<open>fn\<close> raises.\<close>

definition zone_run :: "(state \<Rightarrow> 'a \<times> state) \<Rightarrow> state \<Rightarrow> 'a \<times> state" where
  "zone_run fn s =
    (case fn (s\<lparr>in_zone := True\<rparr>) of (r, s') \<Rightarrow> (r, s'\<lparr>in_zone := in_zone s\<rparr>))"

definition new_promise :: "state \<Rightarrow> promise_ref \<times> state" where
  "new_promise s = (next_promise s, s\<lparr>next_promise := Suc (next_promise s)\<rparr>)"

text \<open>
  Settling a pending promise queues the callbacks waiting on it, in the order they were
  registered; settling a settled promise does nothing.
\<close>

definition job_of :: "settlement \<Rightarrow> promise_ref \<times> callback \<times> promise_ref \<Rightarrow> job" where
  "job_of r w =
    (case w of (p, cb, d) \<Rightarrow>
      (case r of Fulfilled v \<Rightarrow> Reaction cb v d | Rejected \<Rightarrow> Rejection d))"

definition settle :: "promise_ref \<Rightarrow> settlement \<Rightarrow> state \<Rightarrow> state" where
  "settle p r s =
    (case settled s p of
       Some r' \<Rightarrow> s
     | None \<Rightarrow>
        s\<lparr>settled := (settled s)(p \<mapsto> r),
          jobs := jobs s @ map (job_of r) (filter (\<lambda>w. fst w = p) (reactions s)),
          reactions := filter (\<lambda>w. fst w \<noteq> p) (reactions s)\<rparr>)"

text \<open>
  \<open>m.then(cb)\<close>: a new pending promise \<open>d\<close>; the callback waits when \<open>m\<close> is pending and
  is queued as a microtask when \<open>m\<close> is already settled. It never runs inside \<open>then\<close>.
  The zone of the call is kept for the callback.
\<close>

definition promise_then :: "promise_ref \<Rightarrow> callback \<Rightarrow> state \<Rightarrow> promise_ref \<times> state" where
  "promise_then m cb s =
    (case new_promise s of (d, s1) \<Rightarrow>
      (case s1\<lparr>then_zone := (then_zone s1)(d := in_zone s1)\<rparr> of s2 \<Rightarrow>
        (case settled s2 m of
           None \<Rightarrow> (d, s2\<lparr>reactions := reactions s2 @ [(m, cb, d)]\<rparr>)
         | Some r \<Rightarrow> (d, s2\<lparr>jobs := jobs s2 @ [job_of r (m, cb, d)]\<rparr>))))"

text \<open>\<open>Promise.resolve()\<close>: a new promise, already fulfilled with \<open>undefined\<close>.\<close>

definition Promise_resolve :: "state \<Rightarrow> promise_ref \<times> state" where
  "Promise_resolve s =
    (case new_promise s of (d, s1) \<Rightarrow> (d, s1\<lparr>settled := (settled s1)(d \<mapsto> Fulfilled None)\<rparr>))"

text \<open>
  \<open>MapService.CreatePolyline(o)\<close> is abstract in this file: it is taken to return a new
  pending promise, which the map service settles later. Like the methods of a native
  polyline and \<open>observer.next\<close>, it is taken to return normally.
\<close>

definition CreatePolyline :: "IPolylineOptions \<Rightarrow> state \<Rightarrow> promise_ref \<times> state" where
  "CreatePolyline o' s =
    (case new_promise s of (p, s1) \<Rightarrow> (p, perform (MapService_CreatePolyline o' p) s1))"

section \<open>GooglePolylineService\<close>

text \<open>
  The methods of the class, in the order of the source. A method takes the state and
  returns the new one, with its result if it has one; \<open>Inl\<close> is an exception that leaves
  the method. \<open>AddPolyline\<close> is lines 56 to 72.
\<close>

definition AddPolyline :: "component_ref \<Rightarrow> state \<Rightarrow> state" where
  "AddPolyline polyline s =
    (let c = components s polyline;
         o' = \<lparr>id' = Id' c,
               clickable = Clickable c,
               draggable = Draggable c,
               editable = Editable c,
               geodesic = Geodesic c,
               path = Path c,
               strokeColor = StrokeColor c,
               strokeOpacity = StrokeOpacity c,
               strokeWeight = StrokeWeight c,
               visible = Visible c,
               zIndex' = zIndex c\<rparr>
     in (case CreatePolyline o' s of (polylinePromise, s1) \<Rightarrow>
          s1\<lparr>polylines := Map_set (polylines s1) polyline polylinePromise\<rparr>))"

text \<open>
  \<open>CreateEventObservable\<close> (lines 84 to 90) only builds the observable; the function
  given to \<open>Observable.create\<close> runs at each subscription, with the subscribing observer,
  and \<open>subscribe\<close> is that function. What the observable does with an exception of the
  function is not part of this file.
\<close>

datatype observable = Observable_create string component_ref

definition CreateEventObservable :: "string \<Rightarrow> component_ref \<Rightarrow> observable" where
  "CreateEventObservable eventName polyline = Observable_create eventName polyline"

fun subscribe :: "observable \<Rightarrow> observer_ref \<Rightarrow> state \<Rightarrow> error + state" where
  "subscribe (Observable_create eventName polyline) observer s =
    (case Map_get (polylines s) polyline of
       None \<Rightarrow> Inl TypeError
     | Some m \<Rightarrow> Inr (snd (promise_then m (AddListenerCb eventName observer) s)))"

text \<open>
  \<open>DeletePolyline\<close> (lines 100 to 112), \<open>GetNativeMarker\<close> (145 to 147), \<open>SetOptions\<close>
  (159 to 161) and \<open>UpdatePolyline\<close> (171 to 177). The test \<^verbatim>\<open>m == null\<close> holds of
  \<open>undefined\<close>, which is what \<open>Map.get\<close> returns for a key with no entry.
\<close>

definition DeletePolyline :: "component_ref \<Rightarrow> state \<Rightarrow> promise_ref \<times> state" where
  "DeletePolyline polyline s =
    (case Map_get (polylines s) polyline of
       None \<Rightarrow> Promise_resolve s
     | Some m \<Rightarrow> promise_then m (DeleteCb polyline) s)"

definition GetNativeMarker :: "component_ref \<Rightarrow> state \<Rightarrow> promise_ref option" where
  "GetNativeMarker polyline s = Map_get (polylines s) polyline"

definition SetOptions ::
  "component_ref \<Rightarrow> IPolylineOptions \<Rightarrow> state \<Rightarrow> error + promise_ref \<times> state" where
  "SetOptions polyline options s =
    (case Map_get (polylines s) polyline of
       None \<Rightarrow> Inl TypeError
     | Some m \<Rightarrow> Inr (promise_then m (SetOptionsCb options) s))"

definition UpdatePolyline :: "component_ref \<Rightarrow> state \<Rightarrow> promise_ref \<times> state" where
  "UpdatePolyline polyline s =
    (case Map_get (polylines s) polyline of
       None \<Rightarrow> Promise_resolve s
     | Some m \<Rightarrow> promise_then m (SetPathCb polyline) s)"

text \<open>
  The bodies of the closures: the listener of line 87, and the callbacks of lines 86 to
  88, 105 to 110, 160 and 176. A callback receives the value its promise was fulfilled
  with; a method call on \<open>undefined\<close> raises a \<open>TypeError\<close>. \<open>UpdatePolyline\<close>'s callback
  reads \<open>polyline.Path\<close> when it runs, not when \<open>UpdatePolyline\<close> is called.
\<close>

fun run_listener :: "listener \<Rightarrow> jsval \<Rightarrow> state \<Rightarrow> state" where
  "run_listener (ZoneListener observer) e s =
    snd (zone_run (\<lambda>s'. ((), perform (Observer_next observer e) s')) s)"

fun run_callback :: "callback \<Rightarrow> polyline_ref option \<Rightarrow> state \<Rightarrow> (error + unit) \<times> state" where
  "run_callback (AddListenerCb eventName observer) v s =
    (case v of
       None \<Rightarrow> (Inl TypeError, s)
     | Some p \<Rightarrow> (Inr (), perform (Polyline_AddListener p eventName (ZoneListener observer)) s))"
| "run_callback (DeleteCb polyline) v s =
    zone_run (\<lambda>s'.
      (case v of
         None \<Rightarrow> (Inl TypeError, s')
       | Some l \<Rightarrow>
          (case perform (Polyline_Delete l) s' of s'' \<Rightarrow>
            (Inr (), s''\<lparr>polylines := Map_delete (polylines s'') polyline\<rparr>)))) s"
| "run_callback (SetOptionsCb options) v s =
    (case v of
       None \<Rightarrow> (Inl TypeError, s)
     | Some l \<Rightarrow> (Inr (), perform (Polyline_SetOptions l options) s))"
| "run_callback (SetPathCb polyline) v s =
    zone_run (\<lambda>s'.
      (case v of
         None \<Rightarrow> (Inl TypeError, s')
       | Some l \<Rightarrow> (Inr (), perform (Polyline_SetPath l (Path (components s' polyline))) s'))) s"

section \<open>Runs of the service in its environment\<close>

text \<open>
  zone.js runs a callback given to \<^verbatim>\<open>then\<close> in the zone \<^verbatim>\<open>then\<close> was called in, whatever the
  zone of the moment, and restores that one afterwards; \<open>d\<close> is the promise \<^verbatim>\<open>then\<close>
  returned.
\<close>

definition run_reaction ::
  "callback \<Rightarrow> polyline_ref option \<Rightarrow> promise_ref \<Rightarrow> state \<Rightarrow> (error + unit) \<times> state" where
  "run_reaction cb v d s =
    (case run_callback cb v (s\<lparr>in_zone := then_zone s d\<rparr>) of
       (r, s') \<Rightarrow> (r, s'\<lparr>in_zone := in_zone s\<rparr>))"

text \<open>
  A microtask: the first job of the queue runs, and the promise that \<^verbatim>\<open>then\<close> returned is
  fulfilled with the callback's result (always \<open>undefined\<close> here) or rejected when the
  callback raised.
\<close>

definition run_job :: "state \<Rightarrow> state" where
  "run_job s =
    (case jobs s of
       [] \<Rightarrow> s
     | Reaction cb v d # js \<Rightarrow>
        (case run_reaction cb v d (s\<lparr>jobs := js\<rparr>) of
           (Inl err, s') \<Rightarrow> settle d Rejected s'
         | (Inr u, s') \<Rightarrow> settle d (Fulfilled None) s')
     | Rejection d # js \<Rightarrow> settle d Rejected (s\<lparr>jobs := js\<rparr>))"

text \<open>The promises \<open>MapService.CreatePolyline\<close> has returned, and the listeners a native
  polyline holds for an event name, both read off the recorded calls.\<close>

fun created_by :: "bool \<times> call \<Rightarrow> promise_ref option" where
  "created_by (z, MapService_CreatePolyline o' p) = Some p"
| "created_by (z, c) = None"

definition created_promises :: "state \<Rightarrow> promise_ref list" where
  "created_promises s = List.map_filter created_by (calls s)"

fun listener_for :: "polyline_ref \<Rightarrow> string \<Rightarrow> bool \<times> call \<Rightarrow> listener option" where
  "listener_for l name (z, Polyline_AddListener l' name' f) =
    (if l' = l \<and> name' = name then Some f else None)"
| "listener_for l name (z, c) = None"

definition listeners_of :: "polyline_ref \<Rightarrow> string \<Rightarrow> state \<Rightarrow> listener list" where
  "listeners_of l name s = List.map_filter (listener_for l name) (calls s)"

text \<open>
  What can happen, one action at a time: a client calls a method of the service (a call
  that raises leaves the state as it was), subscribes to an observable of
  \<open>CreateEventObservable\<close>, changes the properties of a component, or moves into or out of
  the zone; the map service fulfils or rejects a promise it returned; a microtask runs;
  a native polyline raises an event and calls its listeners. \<open>GetNativeMarker\<close>,
  \<open>GetCoordinatesFromClick\<close> and \<open>CreateEventObservable\<close> return a value and no state, so
  they are no actions. Actions come in any order: every schedule of the JavaScript event
  loop is among the runs. Only the map service settles the promises it returned, and
  only a microtask settles a promise that \<^verbatim>\<open>then\<close> returned; callbacks that clients attach
  to the promises they are handed are outside this file.
\<close>

datatype action =
    Call_AddPolyline component_ref
  | Call_DeletePolyline component_ref
  | Call_UpdatePolyline component_ref
  | Call_SetOptions component_ref IPolylineOptions
  | Call_subscribe string component_ref observer_ref
  | Set_component component_ref MapPolylineComponent
  | Set_in_zone bool
  | Resolve promise_ref polyline_ref
  | Reject promise_ref
  | Run_job
  | Fire polyline_ref string jsval

fun step :: "action \<Rightarrow> state \<Rightarrow> state" where
  "step (Call_AddPolyline polyline) s = AddPolyline polyline s"
| "step (Call_DeletePolyline polyline) s = snd (DeletePolyline polyline s)"
| "step (Call_UpdatePolyline polyline) s = snd (UpdatePolyline polyline s)"
| "step (Call_SetOptions polyline options) s =
    (case SetOptions polyline options s of Inl err \<Rightarrow> s | Inr (d, s') \<Rightarrow> s')"
| "step (Call_subscribe eventName polyline observer) s =
    (case subscribe (CreateEventObservable eventName polyline) observer s of
       Inl err \<Rightarrow> s
     | Inr s' \<Rightarrow> s')"
| "step (Set_component polyline c) s = s\<lparr>components := (components s)(polyline := c)\<rparr>"
| "step (Set_in_zone z) s = s\<lparr>in_zone := z\<rparr>"
| "step (Resolve p l) s =
    (if p \<in> set (created_promises s) then settle p (Fulfilled (Some l)) s else s)"
| "step (Reject p) s =
    (if p \<in> set (created_promises s) then settle p Rejected s else s)"
| "step Run_job s = run_job s"
| "step (Fire l name e) s = fold (\<lambda>f. run_listener f e) (listeners_of l name s) s"

fun run :: "action list \<Rightarrow> state \<Rightarrow> state" where
  "run [] s = s"
| "run (a # as) s = run as (step a s)"

text \<open>A new service: an empty map, no promise yet, nothing called.\<close>

definition init :: "(component_ref \<Rightarrow> MapPolylineComponent) \<Rightarrow> state" where
  "init cs =
    \<lparr>polylines = [], components = cs, settled = (\<lambda>p. None), reactions = [], jobs = [],
     next_promise = 0, in_zone = False, calls = [], then_zone = (\<lambda>d. False)\<rparr>"

section \<open>Invariants of a run\<close>

text \<open>
  A recorded call respects the zone when it is no notification of an observer, or was
  made inside the zone.
\<close>

fun zoned :: "bool \<times> call \<Rightarrow> bool" where
  "zoned (z, Observer_next observer e) = z"
| "zoned (z, c) = True"

text \<open>
  The promise a job settles, and the promises that callbacks waiting or queued are going
  to settle.
\<close>

fun target :: "job \<Rightarrow> promise_ref" where
  "target (Reaction cb v d) = d"
| "target (Rejection d) = d"

definition targets :: "state \<Rightarrow> promise_ref list" where
  "targets s = map (\<lambda>w. snd (snd w)) (reactions s) @ map target (jobs s)"

text \<open>The settlement of the promise of \<^verbatim>\<open>then\<close> after its callback has run.\<close>

definition result_of :: "error + unit \<Rightarrow> settlement" where
  "result_of r = (case r of Inl err \<Rightarrow> Rejected | Inr u \<Rightarrow> Fulfilled None)"

text \<open>
  What holds of the promises in every state a run reaches: no two callbacks settle the
  same promise; every promise in use was allocated; the promises the map holds were
  returned by \<open>MapService.CreatePolyline\<close>; the map has one entry per key; a promise not
  yet allocated is pending.
\<close>

definition well_formed :: "state \<Rightarrow> bool" where
  "well_formed s =
    (distinct (targets s)
     \<and> list_all (\<lambda>d. d < next_promise s) (targets s)
     \<and> list_all (\<lambda>p. p < next_promise s) (created_promises s)
     \<and> list_all (\<lambda>e. snd e \<in> set (created_promises s)) (polylines s)
     \<and> distinct (map fst (polylines s))
     \<and> (\<forall>p. next_promise s \<le> p \<longrightarrow> settled s p = None))"

text \<open>
  \<open>waiting s m cb d\<close>: the callback \<open>cb\<close>, given to \<open>m.then\<close> which returned \<open>d\<close>, still has
  to run: it waits for \<open>m\<close>, or is queued with the value \<open>m\<close> was settled with.
  \<open>tracked s m cb d\<close>: \<open>d\<close> is such a promise, and while it is pending its callback is
  waiting.
\<close>

definition waiting :: "state \<Rightarrow> promise_ref \<Rightarrow> callback \<Rightarrow> promise_ref \<Rightarrow> bool" where
  "waiting s m cb d =
    (case settled s m of
       None \<Rightarrow> (m, cb, d) \<in> set (reactions s)
     | Some r \<Rightarrow> job_of r (m, cb, d) \<in> set (jobs s))"

definition tracked :: "state \<Rightarrow> promise_ref \<Rightarrow> callback \<Rightarrow> promise_ref \<Rightarrow> bool" where
  "tracked s m cb d =
    (m < next_promise s \<and> d < next_promise s \<and> d \<notin> set (created_promises s)
     \<and> (settled s d = None \<longrightarrow> waiting s m cb d))"

text \<open>Concrete inputs for the examples below.\<close>

definition a_component :: MapPolylineComponent where
  "a_component =
    \<lparr>Id' = JNumber 1, Clickable = JBool True, Draggable = JBool False,
     Editable = JBool False, Geodesic = JBool True,
     Path = JArray [JObject [(''latitude'', JNumber 47), (''longitude'', JNumber 8)]],
     StrokeColor = JString ''red'', StrokeOpacity = JNumber 1, StrokeWeight = JNumber 2,
     Visible = JBool True, zIndex = JUndefined\<rparr>"

definition a_click :: jsval where
  "a_click =
    JObject [(''latLng'',
      JObject [(''lat'', JFunction (Some (JNumber 47))), (''lng'', JFunction (Some (JNumber 8)))])]"

definition some_options :: IPolylineOptions where
  "some_options =
    \<lparr>id' = JUndefined, clickable = JUndefined, draggable = JUndefined, editable = JUndefined,
     geodesic = JUndefined, path = JUndefined, strokeColor = JString ''blue'',
     strokeOpacity = JUndefined, strokeWeight = JNumber 4, visible = JUndefined,
     zIndex' = JUndefined\<rparr>"

section \<open>Properties\<close>

lemmas library_defs =
  perform_def zone_run_def new_promise_def settle_def promise_then_def Promise_resolve_def
  CreatePolyline_def job_of_def

lemma Map_get_set: "Map_get (Map_set m k v) = (Map_get m)(k \<mapsto> v)"
  by (rule ext) (simp add: Map_get_def Map_set_def update_conv')

lemma Map_get_delete: "Map_get (Map_delete m k) = (Map_get m)(k := None)"
  by (rule ext) (simp add: Map_get_def Map_delete_def delete_conv')

subsection \<open>What each operation changes\<close>

lemma AddPolyline_eq:
  "AddPolyline polyline s =
    s\<lparr>next_promise := Suc (next_promise s),
      calls := calls s @
        [(in_zone s, MapService_CreatePolyline
           \<lparr>id' = Id' (components s polyline),
            clickable = Clickable (components s polyline),
            draggable = Draggable (components s polyline),
            editable = Editable (components s polyline),
            geodesic = Geodesic (components s polyline),
            path = Path (components s polyline),
            strokeColor = StrokeColor (components s polyline),
            strokeOpacity = StrokeOpacity (components s polyline),
            strokeWeight = StrokeWeight (components s polyline),
            visible = Visible (components s polyline),
            zIndex' = zIndex (components s polyline)\<rparr>
           (next_promise s))],
      polylines := Map_set (polylines s) polyline (next_promise s)\<rparr>"
  by (simp add: AddPolyline_def Let_def library_defs)

lemmas run_defs =
  init_def AddPolyline_eq DeletePolyline_def UpdatePolyline_def SetOptions_def GetNativeMarker_def
  CreateEventObservable_def library_defs created_promises_def listeners_of_def
  run_job_def run_reaction_def run_callback.simps Map_get_def Map_set_def Map_delete_def
  a_component_def

lemma AddPolyline_fields:
  "components (AddPolyline polyline s) = components s"
  "settled (AddPolyline polyline s) = settled s"
  "reactions (AddPolyline polyline s) = reactions s"
  "jobs (AddPolyline polyline s) = jobs s"
  "next_promise (AddPolyline polyline s) = Suc (next_promise s)"
  "in_zone (AddPolyline polyline s) = in_zone s"
  "then_zone (AddPolyline polyline s) = then_zone s"
  by (simp_all add: AddPolyline_eq)

lemma settle_fields:
  "polylines (settle p r s) = polylines s"
  "components (settle p r s) = components s"
  "next_promise (settle p r s) = next_promise s"
  "in_zone (settle p r s) = in_zone s"
  "calls (settle p r s) = calls s"
  "then_zone (settle p r s) = then_zone s"
  by (simp_all add: settle_def split: option.splits)

lemma settled_settle:
  "settled (settle p r s) = (if settled s p = None then (settled s)(p \<mapsto> r) else settled s)"
  by (auto simp: settle_def split: option.splits)

lemma promise_then_fields:
  "fst (promise_then m cb s) = next_promise s"
  "polylines (snd (promise_then m cb s)) = polylines s"
  "components (snd (promise_then m cb s)) = components s"
  "settled (snd (promise_then m cb s)) = settled s"
  "next_promise (snd (promise_then m cb s)) = Suc (next_promise s)"
  "in_zone (snd (promise_then m cb s)) = in_zone s"
  "calls (snd (promise_then m cb s)) = calls s"
  "then_zone (snd (promise_then m cb s)) = (then_zone s)(next_promise s := in_zone s)"
  by (simp_all add: promise_then_def new_promise_def split: option.splits)

lemma Promise_resolve_eq:
  "Promise_resolve s =
    (next_promise s,
     s\<lparr>next_promise := Suc (next_promise s),
       settled := (settled s)(next_promise s \<mapsto> Fulfilled None)\<rparr>)"
  by (simp add: Promise_resolve_def new_promise_def)

declare run_callback.simps [simp del]

lemma run_callback_fields:
  "components (snd (run_callback cb v s)) = components s"
  "settled (snd (run_callback cb v s)) = settled s"
  "reactions (snd (run_callback cb v s)) = reactions s"
  "jobs (snd (run_callback cb v s)) = jobs s"
  "next_promise (snd (run_callback cb v s)) = next_promise s"
  "in_zone (snd (run_callback cb v s)) = in_zone s"
  "then_zone (snd (run_callback cb v s)) = then_zone s"
  by (cases cb; cases v; simp add: run_callback.simps library_defs)+

lemma run_callback_Some:
  "run_callback (AddListenerCb eventName observer) (Some l) s =
     (Inr (), s\<lparr>calls := calls s @
        [(in_zone s, Polyline_AddListener l eventName (ZoneListener observer))]\<rparr>)"
  "run_callback (DeleteCb polyline) (Some l) s =
     (Inr (), s\<lparr>calls := calls s @ [(True, Polyline_Delete l)],
                polylines := Map_delete (polylines s) polyline\<rparr>)"
  "run_callback (SetOptionsCb options) (Some l) s =
     (Inr (), s\<lparr>calls := calls s @ [(in_zone s, Polyline_SetOptions l options)]\<rparr>)"
  "run_callback (SetPathCb polyline) (Some l) s =
     (Inr (), s\<lparr>calls := calls s @
        [(True, Polyline_SetPath l (Path (components s polyline)))]\<rparr>)"
  by (simp_all add: run_callback.simps library_defs)

lemma run_callback_None: "fst (run_callback cb None s) = Inl TypeError"
  by (cases cb) (simp_all add: run_callback.simps library_defs)

lemma polylines_run_callback:
  "polylines (snd (run_callback cb v s)) =
    (case (cb, v) of
       (DeleteCb polyline, Some l) \<Rightarrow> Map_delete (polylines s) polyline
     | _ \<Rightarrow> polylines s)"
  by (cases cb; cases v) (simp_all add: run_callback.simps library_defs)

lemma run_reaction_eq:
  "run_reaction cb v d s =
    (fst (run_callback cb v (s\<lparr>in_zone := then_zone s d\<rparr>)),
     (snd (run_callback cb v (s\<lparr>in_zone := then_zone s d\<rparr>)))\<lparr>in_zone := in_zone s\<rparr>)"
  by (simp add: run_reaction_def split_beta)

lemma run_reaction_fields:
  "components (snd (run_reaction cb v d s)) = components s"
  "settled (snd (run_reaction cb v d s)) = settled s"
  "reactions (snd (run_reaction cb v d s)) = reactions s"
  "jobs (snd (run_reaction cb v d s)) = jobs s"
  "next_promise (snd (run_reaction cb v d s)) = next_promise s"
  "in_zone (snd (run_reaction cb v d s)) = in_zone s"
  "then_zone (snd (run_reaction cb v d s)) = then_zone s"
  by (simp_all add: run_reaction_eq run_callback_fields)

lemma run_reaction_Some:
  "run_reaction (AddListenerCb eventName observer) (Some l) d s =
     (Inr (), s\<lparr>calls := calls s @
        [(then_zone s d, Polyline_AddListener l eventName (ZoneListener observer))]\<rparr>)"
  "run_reaction (DeleteCb polyline) (Some l) d s =
     (Inr (), s\<lparr>calls := calls s @ [(True, Polyline_Delete l)],
                polylines := Map_delete (polylines s) polyline\<rparr>)"
  "run_reaction (SetOptionsCb options) (Some l) d s =
     (Inr (), s\<lparr>calls := calls s @ [(then_zone s d, Polyline_SetOptions l options)]\<rparr>)"
  "run_reaction (SetPathCb polyline) (Some l) d s =
     (Inr (), s\<lparr>calls := calls s @
        [(True, Polyline_SetPath l (Path (components s polyline)))]\<rparr>)"
  by (simp_all add: run_reaction_eq run_callback_Some)

lemma run_reaction_None: "fst (run_reaction cb None d s) = Inl TypeError"
  by (simp add: run_reaction_eq run_callback_None)

lemma polylines_run_reaction:
  "polylines (snd (run_reaction cb v d s)) =
    (case (cb, v) of
       (DeleteCb polyline, Some l) \<Rightarrow> Map_delete (polylines s) polyline
     | _ \<Rightarrow> polylines s)"
  by (simp add: run_reaction_eq polylines_run_callback split: callback.splits option.splits)

lemma run_listener_fields:
  "polylines (run_listener f e s) = polylines s"
  "components (run_listener f e s) = components s"
  "settled (run_listener f e s) = settled s"
  "reactions (run_listener f e s) = reactions s"
  "jobs (run_listener f e s) = jobs s"
  "next_promise (run_listener f e s) = next_promise s"
  "in_zone (run_listener f e s) = in_zone s"
  "then_zone (run_listener f e s) = then_zone s"
  by (cases f; simp add: library_defs)+

lemma run_listener_calls:
  "calls (run_listener f e s) =
    calls s @ [(True, case f of ZoneListener observer \<Rightarrow> Observer_next observer e)]"
  by (cases f) (simp add: library_defs)

lemma created_promises_fields:
  "created_promises (settle p r s) = created_promises s"
  "created_promises (snd (promise_then m cb s)) = created_promises s"
  "created_promises (snd (Promise_resolve s)) = created_promises s"
  "created_promises (snd (run_callback cb v s)) = created_promises s"
  "created_promises (snd (run_reaction cb v d s)) = created_promises s"
  "created_promises (run_listener f e s) = created_promises s"
  "created_promises (s\<lparr>jobs := js\<rparr>) = created_promises s"
  "created_promises (AddPolyline polyline s) = created_promises s @ [next_promise s]"
  apply (simp_all add: created_promises_def settle_fields promise_then_fields
      Promise_resolve_eq run_listener_calls AddPolyline_eq List.map_filter_def
      split: listener.splits)
   apply (cases cb; cases v; simp add: run_callback.simps library_defs)
  apply (cases cb; cases v; simp add: run_reaction_eq run_callback.simps library_defs)
  done

lemma fire_fields:
  "polylines (fold (\<lambda>f. run_listener f e) fs s) = polylines s"
  "components (fold (\<lambda>f. run_listener f e) fs s) = components s"
  "settled (fold (\<lambda>f. run_listener f e) fs s) = settled s"
  "reactions (fold (\<lambda>f. run_listener f e) fs s) = reactions s"
  "jobs (fold (\<lambda>f. run_listener f e) fs s) = jobs s"
  "next_promise (fold (\<lambda>f. run_listener f e) fs s) = next_promise s"
  "in_zone (fold (\<lambda>f. run_listener f e) fs s) = in_zone s"
  "then_zone (fold (\<lambda>f. run_listener f e) fs s) = then_zone s"
  "created_promises (fold (\<lambda>f. run_listener f e) fs s) = created_promises s"
  by (induction fs arbitrary: s; simp add: run_listener_fields created_promises_fields)+

lemma run_job_eq:
  "run_job s =
    (case jobs s of
       [] \<Rightarrow> s
     | Reaction cb v d # js \<Rightarrow>
        settle d (result_of (fst (run_reaction cb v d (s\<lparr>jobs := js\<rparr>))))
          (snd (run_reaction cb v d (s\<lparr>jobs := js\<rparr>)))
     | Rejection d # js \<Rightarrow> settle d Rejected (s\<lparr>jobs := js\<rparr>))"
  by (simp add: run_job_def result_of_def split: list.splits job.splits prod.splits sum.splits)

lemma settled_run_job:
  "settled (run_job s) =
    (case jobs s of
       [] \<Rightarrow> settled s
     | j # js \<Rightarrow>
        (if settled s (target j) = None
         then (settled s)(target j \<mapsto>
           (case j of
              Reaction cb v d \<Rightarrow> result_of (fst (run_reaction cb v d (s\<lparr>jobs := js\<rparr>)))
            | Rejection d \<Rightarrow> Rejected))
         else settled s))"
  by (simp add: run_job_eq settled_settle run_reaction_fields split: list.splits job.splits)

lemma next_promise_run_job: "next_promise (run_job s) = next_promise s"
  by (simp add: run_job_eq settle_fields run_reaction_fields split: list.splits job.splits)

lemma created_promises_run_job: "created_promises (run_job s) = created_promises s"
proof -
  have "created_promises (s\<lparr>jobs := js\<rparr>) = created_promises s" for js
    by (simp add: created_promises_def)
  then show ?thesis
    by (simp add: run_job_eq created_promises_fields split: list.splits job.splits)
qed

subsection \<open>AddPolyline\<close>

text \<open>
  C1. \<open>AddPolyline\<close> makes exactly one call, \<open>MapService.CreatePolyline\<close>, and the options
  object it passes carries in \<open>id\<close>, \<open>clickable\<close>, \<open>draggable\<close>, \<open>editable\<close>, \<open>geodesic\<close>,
  \<open>path\<close>, \<open>strokeColor\<close>, \<open>strokeOpacity\<close>, \<open>strokeWeight\<close>, \<open>visible\<close> and \<open>zIndex\<close> the values
  of the component's properties \<open>Id\<close>, \<open>Clickable\<close>, ..., \<open>zIndex\<close>, whatever they are; the
  component itself is left as it was.
\<close>

theorem AddPolyline_forwards_properties:
  "(\<exists>o' p. calls (AddPolyline polyline s) =
        calls s @ [(in_zone s, MapService_CreatePolyline o' p)]
      \<and> id' o' = Id' (components s polyline)
      \<and> clickable o' = Clickable (components s polyline)
      \<and> draggable o' = Draggable (components s polyline)
      \<and> editable o' = Editable (components s polyline)
      \<and> geodesic o' = Geodesic (components s polyline)
      \<and> path o' = Path (components s polyline)
      \<and> strokeColor o' = StrokeColor (components s polyline)
      \<and> strokeOpacity o' = StrokeOpacity (components s polyline)
      \<and> strokeWeight o' = StrokeWeight (components s polyline)
      \<and> visible o' = Visible (components s polyline)
      \<and> zIndex' o' = zIndex (components s polyline)
      \<and> IPolylineOptions.more o' = ())
   \<and> components (AddPolyline polyline s) = components s"
  by (simp add: AddPolyline_eq)

text \<open>
  C2. After \<open>AddPolyline(polyline)\<close> the map associates \<open>polyline\<close> with the very promise
  that \<open>MapService.CreatePolyline\<close> returned and leaves every other component's entry as
  it was; of the state, \<open>AddPolyline\<close> changes nothing but the map (and, in the world, the
  promise just created and the recorded call). \<open>GetNativeMarker\<close> returns what the map
  holds for the component: that promise after \<open>AddPolyline\<close>, \<open>undefined\<close> when there is no
  entry.
\<close>

theorem AddPolyline_stores_promise:
  "(\<exists>o' p. calls (AddPolyline polyline s) =
        calls s @ [(in_zone s, MapService_CreatePolyline o' p)]
      \<and> Map_get (polylines (AddPolyline polyline s)) = (Map_get (polylines s))(polyline \<mapsto> p)
      \<and> GetNativeMarker polyline (AddPolyline polyline s) = Some p
      \<and> AddPolyline polyline s =
          s\<lparr>polylines := Map_set (polylines s) polyline p,
            next_promise := Suc p,
            calls := calls s @ [(in_zone s, MapService_CreatePolyline o' p)]\<rparr>)
   \<and> GetNativeMarker c s = Map_get (polylines s) c"
  by (simp add: AddPolyline_eq GetNativeMarker_def Map_get_set)

subsection \<open>GetCoordinatesFromClick\<close>

lemma get_prop_truthy: "truthy x \<Longrightarrow> get_prop x name = Inr (field_of x name)"
  by (cases x) (simp_all add: field_of_def)

lemma GetCoordinatesFromClick_eq:
  "GetCoordinatesFromClick e =
    (if some_part_falsy e then Inr JNull
     else (case call_function (field_of (field_of e ''latLng'') ''lat'') of
        Inl x \<Rightarrow> Inl x
      | Inr a \<Rightarrow>
         (case call_function (field_of (field_of e ''latLng'') ''lng'') of
            Inl x \<Rightarrow> Inl x
          | Inr b \<Rightarrow> Inr (JObject [(''latitude'', a), (''longitude'', b)]))))"
proof (cases "truthy e")
  case False
  then show ?thesis
    by (simp add: GetCoordinatesFromClick_def some_part_falsy_def)
next
  case e: True
  show ?thesis
  proof (cases "truthy (field_of e ''latLng'')")
    case False
    with e show ?thesis
      by (simp add: GetCoordinatesFromClick_def some_part_falsy_def get_prop_truthy)
  next
    case True
    with e show ?thesis
      by (simp add: GetCoordinatesFromClick_def some_part_falsy_def get_prop_truthy)
  qed
qed

text \<open>
  C4, as stated, fails: \<open>lat\<close> and \<open>lng\<close> are only tested for truthiness, so an event whose
  \<open>latLng.lat\<close> is the number 47 passes all the checks, and the call \<open>e.latLng.lat()\<close> then
  raises a \<open>TypeError\<close>: no part is falsy, yet no object is returned.
\<close>

theorem GetCoordinatesFromClick_truthy_not_callable:
  "\<not> some_part_falsy
       (JObject [(''latLng'', JObject [(''lat'', JNumber 47), (''lng'', JNumber 8)])])
   \<and> GetCoordinatesFromClick
       (JObject [(''latLng'', JObject [(''lat'', JNumber 47), (''lng'', JNumber 8)])])
     = Inl TypeError"
  by (simp add: some_part_falsy_def field_of_def GetCoordinatesFromClick_def)

text \<open>
  C4, amended. \<open>GetCoordinatesFromClick\<close> returns \<open>null\<close> if and only if \<open>e\<close>, \<open>e.latLng\<close>,
  \<open>e.latLng.lat\<close> or \<open>e.latLng.lng\<close> is falsy. Otherwise it calls \<open>e.latLng.lat()\<close> and
  then \<open>e.latLng.lng()\<close>: when both are functions whose calls return, it returns the
  object with their results as \<open>latitude\<close> and \<open>longitude\<close>; when one of them is not a
  function, or its call raises, the error propagates to the caller.
\<close>

theorem GetCoordinatesFromClick_null_checks:
  "(GetCoordinatesFromClick e = Inr JNull \<longleftrightarrow> some_part_falsy e)
   \<and> (\<not> some_part_falsy e \<longrightarrow>
        GetCoordinatesFromClick e =
          (case call_function (field_of (field_of e ''latLng'') ''lat'') of
             Inl x \<Rightarrow> Inl x
           | Inr a \<Rightarrow>
              (case call_function (field_of (field_of e ''latLng'') ''lng'') of
                 Inl x \<Rightarrow> Inl x
               | Inr b \<Rightarrow> Inr (JObject [(''latitude'', a), (''longitude'', b)]))))"
  by (simp add: GetCoordinatesFromClick_eq split: sum.splits)

theorem GetCoordinatesFromClick_null_checks_witness:
  "\<not> some_part_falsy a_click
   \<and> GetCoordinatesFromClick a_click =
       Inr (JObject [(''latitude'', JNumber 47), (''longitude'', JNumber 8)])
   \<and> some_part_falsy (JObject [(''latLng'', JNull)])
   \<and> GetCoordinatesFromClick (JObject [(''latLng'', JNull)]) = Inr JNull"
  using GetCoordinatesFromClick_null_checks [of a_click]
    GetCoordinatesFromClick_null_checks [of "JObject [(''latLng'', JNull)]"]
  by (simp add: a_click_def some_part_falsy_def field_of_def)

subsection \<open>A component that is not in the map\<close>

text \<open>
  C5. For a component with no entry in the map, \<open>DeletePolyline\<close> and \<open>UpdatePolyline\<close>
  each return a promise that is already fulfilled (\<open>Promise.resolve()\<close>), raise nothing,
  and change nothing else: the map, the components, the waiting and queued callbacks,
  the recorded calls and every other promise are as before.
\<close>

theorem absent_component_resolves_at_once:
  assumes "Map_get (polylines s) polyline = None"
  shows "\<forall>operation \<in> {DeletePolyline, UpdatePolyline}.
     \<exists>d s'. operation polyline s = (d, s')
       \<and> settled s' d = Some (Fulfilled None)
       \<and> polylines s' = polylines s \<and> components s' = components s
       \<and> reactions s' = reactions s \<and> jobs s' = jobs s
       \<and> in_zone s' = in_zone s \<and> calls s' = calls s
       \<and> then_zone s' = then_zone s
       \<and> (\<forall>p. p \<noteq> d \<longrightarrow> settled s' p = settled s p)"
  using assms by (simp add: DeletePolyline_def UpdatePolyline_def Promise_resolve_eq)

theorem absent_component_resolves_at_once_witness:
  "Map_get (polylines (init (\<lambda>c. a_component))) 5 = None
   \<and> settled (snd (DeletePolyline 5 (init (\<lambda>c. a_component)))) (fst (DeletePolyline 5 (init (\<lambda>c. a_component))))
       = Some (Fulfilled None)
   \<and> calls (snd (UpdatePolyline 5 (init (\<lambda>c. a_component)))) = []"
  using absent_component_resolves_at_once [of "init (\<lambda>c. a_component)" 5]
  by (simp add: run_defs)

text \<open>
  C8. For a component with no entry in the map, the lookup yields \<open>undefined\<close>:
  \<open>SetOptions\<close> and the subscription to an observable of \<open>CreateEventObservable\<close> call
  \<^verbatim>\<open>then\<close> on it and raise a \<open>TypeError\<close>, and \<open>GetNativeMarker\<close> returns \<open>undefined\<close>;
  \<open>DeletePolyline\<close> and \<open>UpdatePolyline\<close>, which test for it, return a fulfilled promise.
\<close>

theorem absent_component_unguarded:
  assumes "Map_get (polylines s) polyline = None"
  shows "SetOptions polyline options s = Inl TypeError
    \<and> subscribe (CreateEventObservable eventName polyline) observer s = Inl TypeError
    \<and> GetNativeMarker polyline s = None
    \<and> settled (snd (DeletePolyline polyline s)) (fst (DeletePolyline polyline s))
        = Some (Fulfilled None)
    \<and> settled (snd (UpdatePolyline polyline s)) (fst (UpdatePolyline polyline s))
        = Some (Fulfilled None)"
  using assms
  by (simp add: SetOptions_def CreateEventObservable_def GetNativeMarker_def DeletePolyline_def
      UpdatePolyline_def Promise_resolve_eq)

theorem absent_component_unguarded_witness:
  "Map_get (polylines (init (\<lambda>c. a_component))) 5 = None
   \<and> SetOptions 5 some_options (init (\<lambda>c. a_component)) = Inl TypeError
   \<and> subscribe (CreateEventObservable ''click'' 5) 0 (init (\<lambda>c. a_component)) = Inl TypeError
   \<and> GetNativeMarker 5 (init (\<lambda>c. a_component)) = None"
  using absent_component_unguarded [of "init (\<lambda>c. a_component)" 5 some_options "''click''" 0]
  by (simp add: init_def Map_get_def)

subsection \<open>Observers are notified inside the zone\<close>

lemma run_callback_zoned:
  "list_all zoned (calls s) \<Longrightarrow> list_all zoned (calls (snd (run_callback cb v s)))"
  by (cases cb; cases v; simp add: run_callback.simps library_defs)

lemma run_reaction_zoned:
  "list_all zoned (calls s) \<Longrightarrow> list_all zoned (calls (snd (run_reaction cb v d s)))"
  by (cases cb; cases v; simp add: run_reaction_eq run_callback.simps library_defs)

lemma run_job_zoned: "list_all zoned (calls s) \<Longrightarrow> list_all zoned (calls (run_job s))"
  by (simp add: run_job_eq settle_fields run_reaction_zoned split: list.splits job.splits)

lemma fire_zoned: "list_all zoned (calls s) \<Longrightarrow> list_all zoned (calls (fold (\<lambda>f. run_listener f e) fs s))"
  by (induction fs arbitrary: s) (simp_all add: run_listener_calls split: listener.splits)

lemma step_zoned: "list_all zoned (calls s) \<Longrightarrow> list_all zoned (calls (step a s))"
  by (cases a) (simp_all add: AddPolyline_eq DeletePolyline_def UpdatePolyline_def SetOptions_def
      CreateEventObservable_def promise_then_fields Promise_resolve_eq settle_fields run_job_zoned fire_zoned
      split_beta split: option.splits)

lemma run_zoned: "list_all zoned (calls s) \<Longrightarrow> list_all zoned (calls (run as s))"
  by (induction as arbitrary: s) (simp_all add: step_zoned)

text \<open>
  C3. The listener that \<open>CreateEventObservable\<close> registers notifies its observer inside
  \<open>_zone.run\<close>, whatever the context it is called from; and in every run of a new service,
  every call of \<open>observer.next\<close> that was made, was made inside the zone.
\<close>

theorem observer_notified_inside_zone: "calls (run_listener (ZoneListener observer) e s) = calls s @ [(True, Observer_next observer e)]
   \<and> ((z, Observer_next observer e) \<in> set (calls (run as (init cs))) \<longrightarrow> z)"
proof -
  have "list_all zoned (calls (run as (init cs)))"
    by (rule run_zoned) (simp add: init_def)
  then show ?thesis
    by (auto simp: list_all_iff library_defs)
qed

theorem observer_notified_inside_zone_witness:
  "(let s = run [Call_AddPolyline 0, Call_subscribe ''click'' 0 7, Resolve 0 3, Run_job,
                 Fire 3 ''click'' (JNumber 1)] (init (\<lambda>c. a_component))
    in (True, Observer_next 7 (JNumber 1)) \<in> set (calls s)
     \<and> (False, Observer_next 7 (JNumber 1)) \<notin> set (calls s))"
  using observer_notified_inside_zone [of 7 "JNumber 1" "init (\<lambda>c. a_component)" False
      "[Call_AddPolyline 0, Call_subscribe ''click'' 0 7, Resolve 0 3, Run_job,
                 Fire 3 ''click'' (JNumber 1)]" "\<lambda>c. a_component"]
  by (simp add: run_defs)

subsection \<open>Which operations change the map\<close>

text \<open>
  C7. \<open>SetOptions\<close>, \<open>UpdatePolyline\<close> and the subscription to an observable of
  \<open>CreateEventObservable\<close> leave the map as it is, and so do their callbacks and the
  listener when they run later. (\<open>GetCoordinatesFromClick\<close>, \<open>GetNativeMarker\<close> and
  \<open>CreateEventObservable\<close> itself return a value and no state.) A step of a run changes
  the map only if it is a call of \<open>AddPolyline\<close>, or the microtask that runs the callback
  of \<open>DeletePolyline\<close> on a native polyline.
\<close>

theorem only_AddPolyline_and_DeletePolyline_modify_the_map:
  "(case SetOptions polyline options s of
      Inl err \<Rightarrow> True
    | Inr (d, s') \<Rightarrow> polylines s' = polylines s)
   \<and> polylines (snd (UpdatePolyline polyline s)) = polylines s
   \<and> (case subscribe (CreateEventObservable eventName polyline) observer s of
        Inl err \<Rightarrow> True
      | Inr s' \<Rightarrow> polylines s' = polylines s)
   \<and> polylines (snd (run_callback (SetOptionsCb options) v s)) = polylines s
   \<and> polylines (snd (run_callback (SetPathCb polyline) v s)) = polylines s
   \<and> polylines (snd (run_callback (AddListenerCb eventName observer) v s)) = polylines s
   \<and> polylines (run_listener f e s) = polylines s
   \<and> (polylines (step a s) \<noteq> polylines s \<longrightarrow>
        (\<exists>c. a = Call_AddPolyline c)
        \<or> (a = Run_job \<and> (\<exists>c l d js. jobs s = Reaction (DeleteCb c) (Some l) d # js)))"
proof -
  have "polylines (step a s) = polylines s"
    if "\<forall>c. a \<noteq> Call_AddPolyline c"
      and "a = Run_job \<longrightarrow> (\<forall>c l d js. jobs s \<noteq> Reaction (DeleteCb c) (Some l) d # js)"
  proof (cases a)
    case Run_job
    with that(2) show ?thesis
      by (auto simp: run_job_eq settle_fields polylines_run_reaction
          split: list.splits job.splits callback.splits option.splits)
  qed (simp_all add: that(1) DeletePolyline_def UpdatePolyline_def SetOptions_def
        CreateEventObservable_def split_beta promise_then_fields Promise_resolve_eq settle_fields
        fire_fields split: option.splits)
  then have "polylines (step a s) \<noteq> polylines s \<longrightarrow>
        (\<exists>c. a = Call_AddPolyline c)
        \<or> (a = Run_job \<and> (\<exists>c l d js. jobs s = Reaction (DeleteCb c) (Some l) d # js))"
    by blast
  then show ?thesis
    by (simp add: SetOptions_def UpdatePolyline_def CreateEventObservable_def promise_then_fields
        split_beta Promise_resolve_eq polylines_run_callback run_listener_fields
        split: option.splits)
qed

theorem only_AddPolyline_and_DeletePolyline_modify_the_map_witness:
  "(let s0 = init (\<lambda>c. a_component);
        s = run [Call_AddPolyline 0, Call_DeletePolyline 0, Resolve 0 3] s0
    in polylines (step (Call_AddPolyline 0) s0) \<noteq> polylines s0
     \<and> polylines (step Run_job s) \<noteq> polylines s
     \<and> jobs s = [Reaction (DeleteCb 0) (Some 3) 1]
     \<and> polylines (snd (UpdatePolyline 0 s)) = polylines s)"
  using only_AddPolyline_and_DeletePolyline_modify_the_map
    [where a = "Call_AddPolyline 0" and s = "init (\<lambda>c. a_component)" and polyline = 0]
    only_AddPolyline_and_DeletePolyline_modify_the_map
    [where a = Run_job and polyline = 0
       and s = "run [Call_AddPolyline 0, Call_DeletePolyline 0, Resolve 0 3] (init (\<lambda>c. a_component))"]
  by (simp add: run_defs)

subsection \<open>Every reachable state is well formed\<close>

lemma target_job_of: "target (job_of r w) = snd (snd w)"
  by (cases w; cases r; simp add: job_of_def)

lemma mset_map_partition:
  "mset (map f (filter (\<lambda>w. \<not> P w) xs)) + mset (map f (filter P xs)) = mset (map f xs)"
  by (induction xs) simp_all

lemma mset_targets_settle: "mset (targets (settle p r s)) = mset (targets s)"
proof (cases "settled s p")
  case None
  then show ?thesis
    using mset_map_partition [of "\<lambda>w. snd (snd w)" "\<lambda>w. fst w = p" "reactions s"]
    by (simp add: settle_def targets_def target_job_of comp_def)
next
  case (Some a)
  then show ?thesis by (simp add: settle_def)
qed

lemma targets_settle:
  "distinct (targets (settle p r s)) = distinct (targets s)"
  "set (targets (settle p r s)) = set (targets s)"
  using mset_targets_settle [of p r s] by (metis mset_eq_imp_distinct_iff, metis mset_eq_setD)

lemma well_formed_settle:
  assumes "well_formed s" and "p < next_promise s"
  shows "well_formed (settle p r s)"
  using assms
  by (auto simp: well_formed_def targets_settle settle_fields created_promises_fields settled_settle list_all_iff)

lemma mset_targets_promise_then:
  "mset (targets (snd (promise_then m cb s))) = add_mset (next_promise s) (mset (targets s))"
  by (simp add: promise_then_def new_promise_def targets_def target_job_of split: option.splits)

lemma targets_promise_then:
  "distinct (targets (snd (promise_then m cb s))) =
     (next_promise s \<notin> set (targets s) \<and> distinct (targets s))"
  "set (targets (snd (promise_then m cb s))) = insert (next_promise s) (set (targets s))"
proof -
  have "mset (targets (snd (promise_then m cb s))) = mset (next_promise s # targets s)"
    by (simp add: mset_targets_promise_then)
  then show "distinct (targets (snd (promise_then m cb s))) =
     (next_promise s \<notin> set (targets s) \<and> distinct (targets s))"
    "set (targets (snd (promise_then m cb s))) = insert (next_promise s) (set (targets s))"
    by (metis mset_eq_imp_distinct_iff distinct.simps(2), metis mset_eq_setD list.simps(15))
qed

lemma well_formed_promise_then:
  assumes "well_formed s"
  shows "well_formed (snd (promise_then m cb s))"
  using assms
  by (auto simp: well_formed_def promise_then_fields created_promises_fields list_all_iff
      targets_promise_then intro: less_SucI dest: Suc_leD)

lemma well_formed_Promise_resolve:
  assumes "well_formed s"
  shows "well_formed (snd (Promise_resolve s))"
  using assms
  by (auto simp: well_formed_def Promise_resolve_eq created_promises_def targets_def list_all_iff
      intro: less_SucI dest: Suc_leD)

lemma set_Map_set: "set (Map_set m k v) \<subseteq> insert (k, v) (set m)"
  unfolding Map_set_def by (induction m) auto

lemma set_Map_delete: "set (Map_delete m k) \<subseteq> set m"
  unfolding Map_delete_def by (induction m) auto

lemma length_Map_set:
  "k \<in> fst ` set m \<Longrightarrow> length (Map_set m k v) = length m"
  unfolding Map_set_def by (induction m) auto

lemma well_formed_AddPolyline:
  assumes "well_formed s"
  shows "well_formed (AddPolyline polyline s)"
proof -
  have "list_all (\<lambda>e. snd e \<in> set (created_promises s @ [next_promise s]))
     (Map_set (polylines s) polyline (next_promise s))"
    using assms set_Map_set [of "polylines s" polyline "next_promise s"]
    by (fastforce simp: well_formed_def list_all_iff)
  moreover have "distinct (map fst (Map_set (polylines s) polyline (next_promise s)))"
    using assms by (simp add: well_formed_def Map_set_def distinct_update)
  ultimately show ?thesis
    using assms
    by (simp add: well_formed_def created_promises_fields)
      (auto simp: AddPolyline_eq targets_def list_all_iff intro: less_SucI dest: Suc_leD)
qed

lemma well_formed_run_callback:
  assumes "well_formed s"
  shows "well_formed (snd (run_callback cb v s))"
proof -
  have "set (polylines (snd (run_callback cb v s))) \<subseteq> set (polylines s)"
    using set_Map_delete [of "polylines s"]
    by (auto simp: polylines_run_callback split: callback.splits option.splits)
  moreover have "distinct (map fst (polylines (snd (run_callback cb v s))))"
    using assms
    by (auto simp: polylines_run_callback well_formed_def Map_delete_def distinct_delete
        split: callback.splits option.splits)
  ultimately show ?thesis
    using assms
    by (auto simp: well_formed_def created_promises_fields run_callback_fields targets_def list_all_iff)
qed

lemma well_formed_run_reaction:
  assumes "well_formed s"
  shows "well_formed (snd (run_reaction cb v d s))"
proof -
  have "well_formed (s\<lparr>in_zone := z\<rparr>)" for z
    using assms by (simp add: well_formed_def targets_def created_promises_def)
  then have "well_formed (snd (run_callback cb v (s\<lparr>in_zone := then_zone s d\<rparr>)))"
    by (rule well_formed_run_callback)
  then show ?thesis
    by (simp add: run_reaction_eq well_formed_def targets_def created_promises_def)
qed

lemma well_formed_run_job:
  assumes "well_formed s"
  shows "well_formed (run_job s)"
proof (cases "jobs s")
  case Nil
  with assms show ?thesis by (simp add: run_job_eq)
next
  case (Cons j js)
  have d: "target j < next_promise s"
    using assms Cons by (simp add: well_formed_def targets_def)
  have wf: "well_formed (s\<lparr>jobs := js\<rparr>)"
    using assms Cons by (auto simp: well_formed_def targets_def created_promises_def)
  show ?thesis
  proof (cases j)
    case (Reaction cb v d')
    with Cons d wf show ?thesis
      by (simp add: run_job_eq well_formed_settle well_formed_run_reaction run_reaction_fields)
  next
    case (Rejection d')
    with Cons d wf show ?thesis
      by (simp add: run_job_eq well_formed_settle)
  qed
qed

lemma well_formed_run_listener:
  assumes "well_formed s"
  shows "well_formed (run_listener f e s)"
  using assms by (cases f) (simp add: well_formed_def created_promises_def targets_def library_defs List.map_filter_def)

lemma well_formed_fire:
  "well_formed s \<Longrightarrow> well_formed (fold (\<lambda>f. run_listener f e) fs s)"
  by (induction fs arbitrary: s) (simp_all add: well_formed_run_listener)

lemma created_below:
  "well_formed s \<Longrightarrow> p \<in> set (created_promises s) \<Longrightarrow> p < next_promise s"
  by (simp add: well_formed_def list_all_iff)

lemma well_formed_step:
  assumes "well_formed s"
  shows "well_formed (step a s)"
  using assms
proof (cases a)
  case (Set_component c x)
  with assms show ?thesis
    by (simp add: well_formed_def created_promises_def targets_def)
next
  case (Set_in_zone z)
  with assms show ?thesis
    by (simp add: well_formed_def created_promises_def targets_def)
qed (simp_all add: DeletePolyline_def UpdatePolyline_def SetOptions_def CreateEventObservable_def
      split_beta well_formed_AddPolyline well_formed_promise_then well_formed_Promise_resolve
      well_formed_settle created_below well_formed_run_job well_formed_fire
      split: option.splits)

lemma well_formed_run: "well_formed s \<Longrightarrow> well_formed (run as s)"
  by (induction as arbitrary: s) (simp_all add: well_formed_step)

lemma well_formed_init: "well_formed (init cs)"
  by (simp add: well_formed_def init_def targets_def created_promises_def List.map_filter_def)

lemma well_formed_reachable: "well_formed (run as (init cs))"
  by (simp add: well_formed_run well_formed_init)

lemma stored_promise_created:
  assumes "well_formed s" and "Map_get (polylines s) polyline = Some m"
  shows "m \<in> set (created_promises s)"
proof -
  have "(polyline, m) \<in> set (polylines s)"
    using assms(2) by (simp add: Map_get_def map_of_SomeD)
  with assms(1) show ?thesis
    by (auto simp: well_formed_def list_all_iff)
qed

text \<open>
  C10. In every state a run of a new service reaches, the map holds at most one entry per
  component. When \<open>AddPolyline\<close> is called for a component that is in the map, the entry
  is overwritten in place with the new promise of \<open>MapService.CreatePolyline\<close>, which is
  not the one stored before; \<open>CreatePolyline\<close> is the only call made, and no callback is
  registered or queued and no promise settled, so nothing deletes the native polyline
  of the promise that was stored before.
\<close>

theorem one_entry_per_component:
  "distinct (map fst (polylines (run as (init cs))))
   \<and> (Map_get (polylines (run as (init cs))) polyline = Some m \<longrightarrow>
       (\<exists>o' p. p \<noteq> m
         \<and> calls (AddPolyline polyline (run as (init cs))) =
             calls (run as (init cs)) @ [(in_zone (run as (init cs)), MapService_CreatePolyline o' p)]
         \<and> Map_get (polylines (AddPolyline polyline (run as (init cs)))) polyline = Some p
         \<and> length (polylines (AddPolyline polyline (run as (init cs)))) =
             length (polylines (run as (init cs)))
         \<and> settled (AddPolyline polyline (run as (init cs))) = settled (run as (init cs))
         \<and> reactions (AddPolyline polyline (run as (init cs))) = reactions (run as (init cs))
         \<and> jobs (AddPolyline polyline (run as (init cs))) = jobs (run as (init cs))))"
proof -
  let ?s = "run as (init cs)"
  have wf: "well_formed ?s"
    by (rule well_formed_reachable)
  then have "distinct (map fst (polylines ?s))"
    by (simp add: well_formed_def)
  moreover have "next_promise ?s \<noteq> m \<and> length (Map_set (polylines ?s) polyline (next_promise ?s)) = length (polylines ?s)"
    if "Map_get (polylines ?s) polyline = Some m"
  proof -
    have "m < next_promise ?s"
      using wf that by (simp add: stored_promise_created created_below)
    moreover have "polyline \<in> fst ` set (polylines ?s)"
      using that by (force simp: Map_get_def dest: map_of_SomeD)
    ultimately show ?thesis
      by (simp add: length_Map_set)
  qed
  ultimately show ?thesis
    by (simp add: AddPolyline_eq Map_get_set)
qed

theorem one_entry_per_component_witness:
  "(let s = run [Call_AddPolyline 0] (init (\<lambda>c. a_component))
    in Map_get (polylines s) 0 = Some 0
     \<and> polylines (AddPolyline 0 s) = [(0, 1)]
     \<and> distinct (map fst (polylines (AddPolyline 0 s))))"
  using one_entry_per_component [of "[Call_AddPolyline 0]" "\<lambda>c. a_component" 0 0]
    one_entry_per_component [of "[Call_AddPolyline 0, Call_AddPolyline 0]" "\<lambda>c. a_component" 0 0]
  by (simp add: run_defs)

subsection \<open>When the promise returned by an operation is fulfilled\<close>

lemma waiting_settle: "waiting s m cb d \<Longrightarrow> waiting (settle p r s) m cb d"
  by (auto simp: waiting_def settle_def split: option.splits)

lemma waiting_promise_then: "waiting s m cb d \<Longrightarrow> waiting (snd (promise_then m' cb' s)) m cb d"
  by (auto simp: waiting_def promise_then_def new_promise_def split: option.splits)

lemma waiting_Promise_resolve:
  "m < next_promise s \<Longrightarrow> waiting s m cb d \<Longrightarrow> waiting (snd (Promise_resolve s)) m cb d"
  by (auto simp: waiting_def Promise_resolve_eq split: option.splits)

lemma waiting_run_reaction:
  "waiting (snd (run_reaction cb' v d' s)) m cb d = waiting s m cb d"
  by (simp add: waiting_def run_reaction_fields split: option.splits)

lemma waiting_AddPolyline: "waiting (AddPolyline polyline s) m cb d = waiting s m cb d"
  by (simp add: waiting_def AddPolyline_fields split: option.splits)

lemma waiting_run_job:
  assumes "waiting s m cb d" and "settled (run_job s) d = None"
  shows "waiting (run_job s) m cb d"
proof (cases "jobs s")
  case Nil
  with assms show ?thesis by (simp add: run_job_eq)
next
  case (Cons j js)
  have pending: "settled s d = None" and other: "target j \<noteq> d"
    using assms(2) Cons by (auto simp: settled_run_job split: if_splits)
  have "waiting (s\<lparr>jobs := js\<rparr>) m cb d"
    using assms(1) Cons other
    by (auto simp: waiting_def target_job_of split: option.splits)
  then show ?thesis
    using Cons by (cases j) (simp_all add: run_job_eq waiting_settle waiting_run_reaction)
qed

lemma tracked_AddPolyline: "tracked s m cb d \<Longrightarrow> tracked (AddPolyline polyline s) m cb d"
  by (auto simp: tracked_def created_promises_fields AddPolyline_fields waiting_AddPolyline)

lemma tracked_promise_then:
  "tracked s m cb d \<Longrightarrow> tracked (snd (promise_then m' cb' s)) m cb d"
  by (auto simp: tracked_def promise_then_fields created_promises_fields waiting_promise_then)

lemma tracked_Promise_resolve:
  "tracked s m cb d \<Longrightarrow> tracked (snd (Promise_resolve s)) m cb d"
proof -
  assume t: "tracked s m cb d"
  then have "settled s d = None \<Longrightarrow> waiting (snd (Promise_resolve s)) m cb d"
    by (simp add: tracked_def waiting_Promise_resolve)
  with t show ?thesis
    by (auto simp: tracked_def created_promises_fields) (auto simp: Promise_resolve_eq)
qed

lemma tracked_settle: "tracked s m cb d \<Longrightarrow> tracked (settle p r s) m cb d"
  by (auto simp: tracked_def settle_fields created_promises_fields settled_settle waiting_settle
      split: if_splits)

lemma tracked_run_job: "tracked s m cb d \<Longrightarrow> tracked (run_job s) m cb d"
  by (auto simp: tracked_def created_promises_run_job next_promise_run_job
        intro: waiting_run_job split: list.splits) (auto simp: settled_run_job split: list.splits if_splits)

lemma tracked_fire: "tracked (fold (\<lambda>f. run_listener f e) fs s) m cb d = tracked s m cb d"
  by (simp add: tracked_def waiting_def fire_fields split: option.splits)

lemma tracked_step:
  assumes "tracked s m cb d"
  shows "tracked (step a s) m cb d"
proof (cases a)
  case (Set_component c x)
  with assms show ?thesis
    by (simp add: tracked_def waiting_def created_promises_def split: option.splits)
next
  case (Set_in_zone z)
  with assms show ?thesis
    by (simp add: tracked_def waiting_def created_promises_def split: option.splits)
qed (simp_all add: assms DeletePolyline_def UpdatePolyline_def SetOptions_def CreateEventObservable_def
      split_beta tracked_AddPolyline tracked_promise_then tracked_Promise_resolve tracked_settle
      tracked_run_job tracked_fire split: option.splits)

lemma tracked_run: "tracked s m cb d \<Longrightarrow> tracked (run as s) m cb d"
  by (induction as arbitrary: s) (simp_all add: tracked_step)

lemma tracked_after_then:
  assumes "well_formed s" and "m \<in> set (created_promises s)"
  shows "tracked (snd (promise_then m cb s)) m cb (fst (promise_then m cb s))
    \<and> settled (snd (promise_then m cb s)) (fst (promise_then m cb s)) = None"
proof -
  have "m < next_promise s" and "next_promise s \<notin> set (created_promises s)"
    and "settled s (next_promise s) = None"
    using assms by (auto simp: well_formed_def list_all_iff)
  moreover have "waiting (snd (promise_then m cb s)) m cb (next_promise s)"
    by (simp add: waiting_def promise_then_def new_promise_def split: option.splits)
  ultimately show ?thesis
    by (simp add: tracked_def promise_then_fields created_promises_fields)
qed

lemma settled_step_other:
  assumes "d < next_promise s" and "d \<notin> set (created_promises s)" and "a \<noteq> Run_job"
  shows "settled (step a s) d = settled s d"
  using assms
  by (cases a)
    (auto simp: AddPolyline_fields DeletePolyline_def UpdatePolyline_def SetOptions_def
      CreateEventObservable_def split_beta promise_then_fields Promise_resolve_eq settled_settle
      fire_fields split: option.splits)

lemma fulfilled_step:
  assumes wf: "well_formed s" and tr: "tracked s m cb d"
    and pending: "settled s d = None" and fulfilled: "settled (step a s) d = Some (Fulfilled v)"
  shows "a = Run_job \<and>
    (\<exists>w js. jobs s = Reaction cb w d # js \<and> settled s m = Some (Fulfilled w)
      \<and> fst (run_reaction cb w d (s\<lparr>jobs := js\<rparr>)) = Inr ())"
proof -
  have a: "a = Run_job"
    using settled_step_other [of d s a] tr pending fulfilled by (auto simp: tracked_def)
  from fulfilled pending a obtain j js where js: "jobs s = j # js" and j: "target j = d"
    and res: "(case j of
              Reaction cb v d \<Rightarrow> result_of (fst (run_reaction cb v d (s\<lparr>jobs := js\<rparr>)))
            | Rejection d \<Rightarrow> Rejected) = Fulfilled v"
    by (auto simp: settled_run_job split: list.splits if_splits)
  have w: "waiting s m cb d"
    using tr pending by (simp add: tracked_def)
  have dist: "distinct (targets s)"
    using wf by (simp add: well_formed_def)
  show ?thesis
  proof (cases "settled s m")
    case None
    with w have "d \<in> set (map (\<lambda>w. snd (snd w)) (reactions s))"
      by (force simp: waiting_def)
    moreover have "d \<in> set (map target (jobs s))"
      using js j by auto
    ultimately show ?thesis
      using dist by (auto simp: targets_def)
  next
    case (Some r)
    with w have "job_of r (m, cb, d) \<in> set (jobs s)"
      by (simp add: waiting_def)
    moreover have "inj_on target (set (jobs s))"
      using dist by (simp add: targets_def distinct_map)
    ultimately have "j = job_of r (m, cb, d)"
      using js j by (auto simp: inj_on_def target_job_of)
    with res Some a js show ?thesis
      by (cases r) (auto simp: job_of_def result_of_def split: sum.splits)
  qed
qed

lemma then_tracked:
  assumes stored: "Map_get (polylines (run as0 (init cs))) polyline = Some m"
    and "promise_then m cb (run as0 (init cs)) = (d, s1)"
  shows "well_formed (run as1 s1) \<and> tracked (run as1 s1) m cb d"
proof -
  let ?s0 = "run as0 (init cs)"
  have wf0: "well_formed ?s0"
    by (rule well_formed_reachable)
  then have "m \<in> set (created_promises ?s0)"
    using stored by (rule stored_promise_created)
  with wf0 have "tracked (snd (promise_then m cb ?s0)) m cb (fst (promise_then m cb ?s0))"
    by (simp add: tracked_after_then)
  then have "tracked s1 m cb d"
    using assms(2) by simp
  then have tr: "tracked (run as1 s1) m cb d"
    by (rule tracked_run)
  have "well_formed (snd (promise_then m cb ?s0))"
    using wf0 by (rule well_formed_promise_then)
  then have "well_formed s1"
    using assms(2) by simp
  then have wf: "well_formed (run as1 s1)"
    by (rule well_formed_run)
  with tr show ?thesis by simp
qed

lemma then_queued:
  assumes "tracked s m cb d" and "settled s d = None" and "settled s m = Some (Fulfilled w)"
  shows "Reaction cb w d \<in> set (jobs s)"
  using assms by (simp add: tracked_def waiting_def job_of_def)

lemma run_job_Reaction:
  assumes "jobs s = Reaction cb (Some l) d # js" and "settled s d = None"
  shows "settled (run_job s) d = Some (Fulfilled None)"
    and "calls (run_job s) = calls (snd (run_reaction cb (Some l) d (s\<lparr>jobs := js\<rparr>)))"
    and "polylines (run_job s) = polylines (snd (run_reaction cb (Some l) d (s\<lparr>jobs := js\<rparr>)))"
    and "then_zone (run_job s) = then_zone s"
  using assms
  by (cases cb; simp add: run_job_eq settled_settle settle_fields run_reaction_Some result_of_def)+

lemma then_callback:
  assumes "Map_get (polylines (run as0 (init cs))) polyline = Some m"
    and "promise_then m cb (run as0 (init cs)) = (d, s1)"
    and "s = run as1 s1"
    and "settled s d = None"
  shows "(settled s m = Some (Fulfilled (Some l)) \<longrightarrow> Reaction cb (Some l) d \<in> set (jobs s))
    \<and> (jobs s = Reaction cb (Some l) d # js \<longrightarrow>
          settled (step Run_job s) d = Some (Fulfilled None))
    \<and> (settled (step a s) d = Some (Fulfilled v) \<longrightarrow>
          (\<exists>l js. a = Run_job \<and> jobs s = Reaction cb (Some l) d # js
             \<and> settled s m = Some (Fulfilled (Some l))))"
proof (intro conjI impI)
  have inv: "well_formed s \<and> tracked s m cb d"
    unfolding assms(3) using assms(1,2) by (rule then_tracked)
  {
    assume "settled s m = Some (Fulfilled (Some l))"
    with inv assms(4) show "Reaction cb (Some l) d \<in> set (jobs s)"
      by (blast intro: then_queued)
  next
    assume "jobs s = Reaction cb (Some l) d # js"
    with assms(4) show "settled (step Run_job s) d = Some (Fulfilled None)"
      by (simp add: run_job_Reaction)
  next
    assume "settled (step a s) d = Some (Fulfilled v)"
    with inv assms(4) obtain w js' where a: "a = Run_job"
      and j: "jobs s = Reaction cb w d # js'"
      and m: "settled s m = Some (Fulfilled w)"
      and ok: "fst (run_reaction cb w d (s\<lparr>jobs := js'\<rparr>)) = Inr ()"
      using fulfilled_step [of s m cb d a v] by blast
    from ok obtain l' where "w = Some l'"
      by (cases w) (simp_all add: run_reaction_None)
    with a j m show "\<exists>l js. a = Run_job \<and> jobs s = Reaction cb (Some l) d # js
             \<and> settled s m = Some (Fulfilled (Some l))"
      by simp
  }
qed

lemma run_append: "run (as @ bs) s = run bs (run as s)"
  by (induction as arbitrary: s) simp_all





lemma settled_run_job_mono: "settled s p = Some r \<Longrightarrow> settled (run_job s) p = Some r"
  by (auto simp: settled_run_job split: list.splits)

lemma settled_step_mono:
  assumes "well_formed s" and "settled s p = Some r"
  shows "settled (step a s) p = Some r"
proof -
  have "p \<noteq> next_promise s"
    using assms by (auto simp: well_formed_def)
  with assms(2) show ?thesis
    by (cases a)
      (auto simp: AddPolyline_fields DeletePolyline_def UpdatePolyline_def SetOptions_def
        CreateEventObservable_def split_beta promise_then_fields Promise_resolve_eq settled_settle
        settled_run_job_mono fire_fields split: option.splits)
qed

lemma settled_run_mono:
  "well_formed s \<Longrightarrow> settled s p = Some r \<Longrightarrow> settled (run as s) p = Some r"
  by (induction as arbitrary: s) (simp_all add: settled_step_mono well_formed_step)

lemma calls_run_job: "\<exists>xs. calls (run_job s) = calls s @ xs"
proof -
  have "\<exists>xs. calls (snd (run_reaction cb v d s')) = calls s' @ xs" for cb v d s'
    by (cases cb; cases v; simp add: run_reaction_eq run_callback.simps library_defs)
  from this [of _ _ _ "s\<lparr>jobs := _\<rparr>"] show ?thesis
    by (simp add: run_job_eq settle_fields split: list.splits job.splits)
qed

lemma calls_fire: "\<exists>xs. calls (fold (\<lambda>f. run_listener f e) fs s) = calls s @ xs"
proof (induction fs arbitrary: s)
  case Nil
  then show ?case by simp
next
  case (Cons f fs)
  from Cons [of "run_listener f e s"] show ?case
    by (auto simp: run_listener_calls)
qed

lemma calls_step: "\<exists>xs. calls (step a s) = calls s @ xs"
  by (cases a)
    (simp_all add: AddPolyline_eq DeletePolyline_def UpdatePolyline_def SetOptions_def
      CreateEventObservable_def split_beta promise_then_fields Promise_resolve_eq settle_fields
      calls_run_job calls_fire split: option.splits)

lemma calls_run: "\<exists>xs. calls (run as s) = calls s @ xs"
proof (induction as arbitrary: s)
  case Nil
  then show ?case by simp
next
  case (Cons a as)
  from calls_step [of a s] obtain xs where "calls (step a s) = calls s @ xs" ..
  moreover from Cons [of "step a s"] obtain ys
    where "calls (run as (step a s)) = calls (step a s) @ ys" ..
  ultimately show ?case by simp
qed

lemma fulfilled_has_step:
  assumes "well_formed s1" and "settled s1 d = None" and "settled (run as1 s1) d = Some r"
  shows "\<exists>n<length as1. settled (run (take n as1) s1) d = None
      \<and> settled (run (take (Suc n) as1) s1) d = Some r"
  using assms(3)
proof (induction as1 rule: rev_induct)
  case Nil
  with assms(2) show ?case by simp
next
  case (snoc a as)
  show ?case
  proof (cases "settled (run as s1) d")
    case None
    with snoc.prems show ?thesis
      by (intro exI [of _ "length as"]) simp
  next
    case (Some r')
    have "well_formed (run as s1)"
      using assms(1) by (rule well_formed_run)
    then have "settled (step a (run as s1)) d = Some r'"
      using Some by (rule settled_step_mono)
    with snoc.prems have "settled (run as s1) d = Some r"
      using Some by (simp add: run_append)
    from snoc.IH [OF this] obtain n where "n < length as"
      and "settled (run (take n as) s1) d = None"
      and "settled (run (take (Suc n) as) s1) d = Some r"
      by blast
    then show ?thesis
      by (intro exI [of _ n]) simp
  qed
qed


lemma then_fulfilled_before:
  assumes stored: "Map_get (polylines (run as0 (init cs))) polyline = Some m"
    and then': "promise_then m cb (run as0 (init cs)) = (d, s1)"
    and s: "s = run as1 s1"
    and fulfilled: "settled s d = Some (Fulfilled v)"
  shows "\<exists>n l js pre post. n < length as1
      \<and> jobs (run (take n as1) s1) = Reaction cb (Some l) d # js
      \<and> settled (run (take n as1) s1) d = None
      \<and> settled s m = Some (Fulfilled (Some l))
      \<and> calls (run (take n as1) s1) = calls s1 @ pre
      \<and> calls s = calls (run_job (run (take n as1) s1)) @ post"
proof -
  let ?s0 = "run as0 (init cs)"
  have wf0: "well_formed ?s0"
    by (rule well_formed_reachable)
  then have "m \<in> set (created_promises ?s0)"
    using stored by (rule stored_promise_created)
  with wf0 have "settled (snd (promise_then m cb ?s0)) (fst (promise_then m cb ?s0)) = None"
    by (simp add: tracked_after_then)
  then have pending1: "settled s1 d = None"
    using then' by simp
  have wf1: "well_formed s1"
    using then_tracked [OF stored then', of "[]"] by simp
  from fulfilled_has_step [OF wf1 pending1 fulfilled [unfolded s]]
  obtain n where n: "n < length as1"
    and before: "settled (run (take n as1) s1) d = None"
    and after: "settled (run (take (Suc n) as1) s1) d = Some (Fulfilled v)"
    by blast
  let ?s' = "run (take n as1) s1"
  have next': "run (take (Suc n) as1) s1 = step (as1 ! n) ?s'"
    using n by (simp add: take_Suc_conv_app_nth run_append)
  have "\<exists>l js. as1 ! n = Run_job \<and> jobs ?s' = Reaction cb (Some l) d # js
      \<and> settled ?s' m = Some (Fulfilled (Some l))"
    using then_callback [OF stored then' refl before, of 0 "[]" "as1 ! n" v] after next'
    by simp
  then obtain l js where a: "as1 ! n = Run_job"
    and j: "jobs ?s' = Reaction cb (Some l) d # js"
    and m: "settled ?s' m = Some (Fulfilled (Some l))"
    by blast
  have wf': "well_formed ?s'"
    using wf1 by (rule well_formed_run)
  have "s = run (drop n as1) ?s'"
    unfolding s by (simp flip: run_append)
  then have m': "settled s m = Some (Fulfilled (Some l))"
    using wf' m by (simp add: settled_run_mono)
  from calls_run [of "take n as1" s1] obtain pre where pre: "calls ?s' = calls s1 @ pre" ..
  have "s = run (drop (Suc n) as1) (run (take (Suc n) as1) s1)"
    unfolding s by (simp flip: run_append)
  with calls_run [of "drop (Suc n) as1" "run (take (Suc n) as1) s1"]
  obtain post where "calls s = calls (run (take (Suc n) as1) s1) @ post"
    by auto
  then have "calls s = calls (run_job ?s') @ post"
    by (simp add: next' a)
  with n j before m' pre show ?thesis
    by blast
qed



text \<open>
  C9. Take a component that is in the map, with promise \<open>m\<close>, in a state a run of a new
  service has reached, and the promise \<open>d\<close> that \<open>DeletePolyline\<close> returns there. \<open>d\<close> is
  pending when \<open>DeletePolyline\<close> returns. At any later moment while \<open>d\<close> is pending: once
  \<open>m\<close> is fulfilled with a native polyline, the callback of \<open>DeletePolyline\<close> is queued for
  it; when the callback is first in the queue, the microtask fulfils \<open>d\<close>; and the step
  that fulfils \<open>d\<close> calls \<open>Delete\<close> of the native polyline that \<open>m\<close> was fulfilled with,
  inside the zone, and removes the component's entry. In the state it leads to,
  \<open>GetNativeMarker\<close> returns \<open>undefined\<close> for the component, and another \<open>DeletePolyline\<close>
  returns a promise that is already fulfilled, makes no call and registers or queues no
  callback. At any later moment at which \<open>d\<close> is fulfilled, \<open>Delete\<close> of that native
  polyline has been called since \<open>DeletePolyline\<close> returned.
\<close>

theorem DeletePolyline_fulfilled:
  assumes "Map_get (polylines (run as0 (init cs))) polyline = Some m"
    and "DeletePolyline polyline (run as0 (init cs)) = (d, s1)"
    and "s = run as1 s1"
  shows "settled s1 d = None
     \<and> (settled s d = None \<longrightarrow>
          (settled s m = Some (Fulfilled (Some l)) \<longrightarrow>
             Reaction (DeleteCb polyline) (Some l) d \<in> set (jobs s))
        \<and> (jobs s = Reaction (DeleteCb polyline) (Some l) d # js \<longrightarrow>
             settled (step Run_job s) d = Some (Fulfilled None))
        \<and> (settled (step a s) d = Some (Fulfilled v) \<longrightarrow>
            (\<exists>l. settled s m = Some (Fulfilled (Some l))
               \<and> calls (step a s) = calls s @ [(True, Polyline_Delete l)]
               \<and> Map_get (polylines (step a s)) polyline = None
               \<and> GetNativeMarker polyline (step a s) = None
               \<and> (\<exists>d' s'. DeletePolyline polyline (step a s) = (d', s')
                    \<and> settled s' d' = Some (Fulfilled None)
                    \<and> calls s' = calls (step a s)
                    \<and> jobs s' = jobs (step a s)
                    \<and> reactions s' = reactions (step a s)
                    \<and> polylines s' = polylines (step a s)))))
     \<and> (settled s d = Some (Fulfilled v) \<longrightarrow>
          (\<exists>l. settled s m = Some (Fulfilled (Some l))
             \<and> (True, Polyline_Delete l) \<in> set (drop (length (calls s1)) (calls s))))"
proof (intro conjI impI)
  have then': "promise_then m (DeleteCb polyline) (run as0 (init cs)) = (d, s1)"
    using assms(1,2) by (simp add: DeletePolyline_def)
  have "m \<in> set (created_promises (run as0 (init cs)))"
    using well_formed_reachable assms(1) by (rule stored_promise_created)
  then show "settled s1 d = None"
    using tracked_after_then [OF well_formed_reachable, of m as0 cs "DeleteCb polyline"] then'
    by simp
  {
    assume pending: "settled s d = None"
    note cb = then_callback [OF assms(1) then' assms(3) pending, of l js a v]
    {
      assume "settled s m = Some (Fulfilled (Some l))"
      with cb show "Reaction (DeleteCb polyline) (Some l) d \<in> set (jobs s)"
        by simp
    next
      assume "jobs s = Reaction (DeleteCb polyline) (Some l) d # js"
      with cb show "settled (step Run_job s) d = Some (Fulfilled None)"
        by simp
    next
      assume "settled (step a s) d = Some (Fulfilled v)"
      with cb obtain l' js' where a: "a = Run_job"
        and j: "jobs s = Reaction (DeleteCb polyline) (Some l') d # js'"
        and m: "settled s m = Some (Fulfilled (Some l'))"
        by blast
      have "Map_get (polylines (step a s)) polyline = None"
        using j pending by (simp add: a run_job_Reaction run_reaction_Some Map_get_delete)
      then show "\<exists>l. settled s m = Some (Fulfilled (Some l))
               \<and> calls (step a s) = calls s @ [(True, Polyline_Delete l)]
               \<and> Map_get (polylines (step a s)) polyline = None
               \<and> GetNativeMarker polyline (step a s) = None
               \<and> (\<exists>d' s'. DeletePolyline polyline (step a s) = (d', s')
                    \<and> settled s' d' = Some (Fulfilled None)
                    \<and> calls s' = calls (step a s)
                    \<and> jobs s' = jobs (step a s)
                    \<and> reactions s' = reactions (step a s)
                    \<and> polylines s' = polylines (step a s))"
        using m j pending
        by (simp add: GetNativeMarker_def DeletePolyline_def Promise_resolve_eq)
          (simp add: a run_job_Reaction run_reaction_Some)
    }
  }
  {
    assume "settled s d = Some (Fulfilled v)"
    from then_fulfilled_before [OF assms(1) then' assms(3) this]
    obtain n l' js' pre post
      where "jobs (run (take n as1) s1) = Reaction (DeleteCb polyline) (Some l') d # js'"
        and "settled (run (take n as1) s1) d = None"
        and "settled s m = Some (Fulfilled (Some l'))"
        and "calls (run (take n as1) s1) = calls s1 @ pre"
        and "calls s = calls (run_job (run (take n as1) s1)) @ post"
      by blast
    then show "\<exists>l. settled s m = Some (Fulfilled (Some l))
             \<and> (True, Polyline_Delete l) \<in> set (drop (length (calls s1)) (calls s))"
      by (simp add: run_job_Reaction run_reaction_Some)
  }
qed

theorem DeletePolyline_fulfilled_witness:
  "(let s0 = run [Call_AddPolyline 0] (init (\<lambda>c. a_component));
        s1 = snd (DeletePolyline 0 s0);
        s = run [Resolve 0 3] s1
    in Map_get (polylines s0) 0 = Some 0
     \<and> fst (DeletePolyline 0 s0) = 1
     \<and> settled s1 1 = None
     \<and> settled s 1 = None
     \<and> settled s 0 = Some (Fulfilled (Some 3))
     \<and> jobs s = [Reaction (DeleteCb 0) (Some 3) 1]
     \<and> settled (step Run_job s) 1 = Some (Fulfilled None)
     \<and> calls (step Run_job s) = calls s @ [(True, Polyline_Delete 3)]
     \<and> GetNativeMarker 0 (step Run_job s) = None
     \<and> (True, Polyline_Delete 3)
         \<in> set (drop (length (calls s1)) (calls (run [Resolve 0 3, Run_job] s1))))"
  using DeletePolyline_fulfilled
    [where ?as0.0 = "[Call_AddPolyline 0]" and cs = "\<lambda>c. a_component" and polyline = 0 and m = 0
       and ?as1.0 = "[Resolve 0 3]" and d = 1 and a = Run_job and v = None and l = 3 and js = "[]"
       and ?s1.0 = "snd (DeletePolyline 0 (run [Call_AddPolyline 0] (init (\<lambda>c. a_component))))"
       and s = "run [Resolve 0 3] (snd (DeletePolyline 0
            (run [Call_AddPolyline 0] (init (\<lambda>c. a_component)))))"]
    DeletePolyline_fulfilled
    [where ?as0.0 = "[Call_AddPolyline 0]" and cs = "\<lambda>c. a_component" and polyline = 0 and m = 0
       and ?as1.0 = "[Resolve 0 3, Run_job]" and d = 1 and a = Run_job and v = None and l = 3
       and js = "[]"
       and ?s1.0 = "snd (DeletePolyline 0 (run [Call_AddPolyline 0] (init (\<lambda>c. a_component))))"
       and s = "run [Resolve 0 3, Run_job] (snd (DeletePolyline 0
            (run [Call_AddPolyline 0] (init (\<lambda>c. a_component)))))"]
  by (simp add: run_defs)

end
